theory Spec2Isabelle
  imports Complex_Main
begin

section \<open>EWMA joint shock and bond portfolio valuation (versions.ipynb)\<close>

text \<open>
  The notebook computes on float64 arrays. Numbers are modelled as reals, a numpy array
  as a list and a two-dimensional array as the list of its rows. Where numpy would
  produce a non-finite entry (NaN or an infinity) from a real input, the model returns
  \<open>None\<close>; where Python raises, the model returns \<open>Inl\<close> of the exception.
\<close>

datatype py_error = ZeroDivisionError | IndexError | ValueError

subsection \<open>Cell 1, step 1: EWMA weights and covariance\<close>

text \<open>
  \<^verbatim>\<open>weights = (1-lam) * lam ** np.arange(T-1, -1, -1)\<close>:
  the exponents run from \<open>T-1\<close> down to \<open>0\<close>, so entry \<open>t\<close> is \<open>(1-lam) * lam^(T-1-t)\<close>.
\<close>

definition raw_weights :: "real \<Rightarrow> nat \<Rightarrow> real list" where
  "raw_weights lam T = map (\<lambda>k. (1 - lam) * lam ^ k) (rev [0..<T])"

text \<open>
  \<^verbatim>\<open>weights /= weights.sum()\<close>. On an empty array the division has nothing to divide
  and leaves the empty array. On a non-empty array whose sum is zero the entries become
  infinities or NaN: \<open>None\<close>.
\<close>

definition weights :: "real \<Rightarrow> nat \<Rightarrow> real list option" where
  "weights lam T =
     (let raw = raw_weights lam T; s = sum_list raw
      in if raw \<noteq> [] \<and> s = 0 then None else Some (map (\<lambda>w. w / s) raw))"

text \<open>
  \<^verbatim>\<open>rets * weights[:, None]\<close>: row \<open>t\<close> of the \<open>T \<times> N\<close> array is multiplied by weight
  \<open>t\<close>. The weights come from \<open>T = rets.shape[0]\<close>, so both have \<open>T\<close> entries.
\<close>

definition scale_rows :: "real list list \<Rightarrow> real list \<Rightarrow> real list list" where
  "scale_rows rets w = map2 (\<lambda>row wt. map (\<lambda>x. x * wt) row) rets w"

text \<open>
  \<^verbatim>\<open>A.T @ B\<close> for two arrays of \<open>T\<close> rows and \<open>N\<close> columns: entry \<open>(i, j)\<close> of the
  \<open>N \<times> N\<close> product is the sum over the rows \<open>t\<close> of \<open>A[t][i] * B[t][j]\<close>. With no rows every
  sum is empty and the product is the zero matrix. The column count \<open>N\<close> is
  \<open>rets.shape[1]\<close>.
\<close>

definition transpose_matmul :: "nat \<Rightarrow> real list list \<Rightarrow> real list list \<Rightarrow> real list list" where
  "transpose_matmul N A B =
     map (\<lambda>i. map (\<lambda>j. sum_list (map2 (\<lambda>a b. a ! i * b ! j) A B)) [0..<N]) [0..<N]"

text \<open>\<^verbatim>\<open>H_ewma = (rets * weights[:, None]).T @ rets\<close>\<close>

definition H_ewma :: "nat \<Rightarrow> real list list \<Rightarrow> real list \<Rightarrow> real list list" where
  "H_ewma N rets w = transpose_matmul N (scale_rows rets w) rets"

text \<open>Step 1 as a whole: the weights from \<open>T\<close>, then the matrix.\<close>

definition covariance_estimator :: "real \<Rightarrow> nat \<Rightarrow> real list list \<Rightarrow> real list list option" where
  "covariance_estimator lam N rets =
     (case weights lam (length rets) of None \<Rightarrow> None
      | Some w \<Rightarrow> Some (H_ewma N rets w))"




subsection \<open>Cell 1, step 2: eigen-decomposition and the dominant pair\<close>









text \<open>A square array equal to its transpose.\<close>

definition symmetric_matrix :: "real list list \<Rightarrow> bool" where
  "symmetric_matrix H \<longleftrightarrow> (\<forall>row\<in>set H. length row = length H) \<and> transpose H = H"

subsection \<open>Cell 1, steps 3 and 4: quantile constant and shock vectors\<close>

text \<open>
  \<^verbatim>\<open>c = stats.chi2.ppf(0.995, df=N)\<close>. The quantile function is scipy's; it is a
  parameter \<open>ppf\<close> of the model, called at probability 0.995 and \<open>N\<close> degrees of freedom.
\<close>

definition chi2_c :: "(real \<Rightarrow> nat \<Rightarrow> real) \<Rightarrow> nat \<Rightarrow> real" where
  "chi2_c ppf N = ppf (995 / 1000) N"

text \<open>\<^verbatim>\<open>np.sqrt\<close> of a negative number is NaN.\<close>

definition np_sqrt :: "real \<Rightarrow> real option" where
  "np_sqrt x = (if x < 0 then None else Some (sqrt x))"

definition shock_mag :: "real \<Rightarrow> real \<Rightarrow> real option" where
  "shock_mag c lam_max = np_sqrt (c * lam_max)"

text \<open>
  \<^verbatim>\<open>delta_up = shock_mag * e_max\<close> and \<^verbatim>\<open>delta_down = -shock_mag * e_max\<close>:
  a scalar times an array. A NaN magnitude makes every entry NaN.
\<close>

definition delta_up :: "real \<Rightarrow> real \<Rightarrow> real list \<Rightarrow> real list option" where
  "delta_up c lam_max e_max =
     (case shock_mag c lam_max of None \<Rightarrow> None
      | Some m \<Rightarrow> Some (map (\<lambda>e. m * e) e_max))"

definition delta_down :: "real \<Rightarrow> real \<Rightarrow> real list \<Rightarrow> real list option" where
  "delta_down c lam_max e_max =
     (case shock_mag c lam_max of None \<Rightarrow> None
      | Some m \<Rightarrow> Some (map (\<lambda>e. (- m) * e) e_max))"

subsection \<open>Cell 2: dates\<close>

text \<open>
  A pandas Timestamp at midnight, as its calendar fields. Timestamps compare by their
  position on the time line, which for dates is the day number \<open>to_ordinal\<close> (the
  proleptic Gregorian ordinal of Python's \<^verbatim>\<open>date.toordinal\<close>).
\<close>

record date =
  year :: nat
  month :: nat
  day :: nat

definition is_leap :: "nat \<Rightarrow> bool" where
  "is_leap y \<longleftrightarrow> y mod 4 = 0 \<and> (y mod 100 \<noteq> 0 \<or> y mod 400 = 0)"

definition days_in_month :: "nat \<Rightarrow> nat \<Rightarrow> nat" where
  "days_in_month y m =
     (if m = 2 then (if is_leap y then 29 else 28)
      else if m = 4 \<or> m = 6 \<or> m = 9 \<or> m = 11 then 30 else 31)"

text \<open>A date of the calendar.\<close>

definition valid_date :: "date \<Rightarrow> bool" where
  "valid_date d \<longleftrightarrow>
     1 \<le> year d \<and> 1 \<le> month d \<and> month d \<le> 12
     \<and> 1 \<le> day d \<and> day d \<le> days_in_month (year d) (month d)"

definition days_before_year :: "nat \<Rightarrow> nat" where
  "days_before_year y =
     365 * (y - 1) + (y - 1) div 4 + (y - 1) div 400 - (y - 1) div 100"

definition days_before_month :: "nat \<Rightarrow> nat \<Rightarrow> nat" where
  "days_before_month y m = sum_list (map (days_in_month y) [1..<m])"

definition to_ordinal :: "date \<Rightarrow> nat" where
  "to_ordinal d = days_before_year (year d) + days_before_month (year d) (month d) + day d"

text \<open>\<^verbatim>\<open>(dt - today).days\<close>\<close>

definition days_between :: "date \<Rightarrow> date \<Rightarrow> int" where
  "days_between today dt = int (to_ordinal dt) - int (to_ordinal today)"

text \<open>The last day of the month with index \<open>12 * year + (month - 1)\<close>.\<close>

definition month_end_of :: "nat \<Rightarrow> date" where
  "month_end_of mi =
     \<lparr>year = mi div 12, month = mi mod 12 + 1, day = days_in_month (mi div 12) (mi mod 12 + 1)\<rparr>"

text \<open>
  \<^verbatim>\<open>d + pd.DateOffset(months=n)\<close> and \<^verbatim>\<open>d + pd.DateOffset(years=n)\<close>: the month or the
  year moves, the day of the month stays and is cut to the length of the new month.
\<close>

definition add_months :: "date \<Rightarrow> nat \<Rightarrow> date" where
  "add_months d n =
     (let mi = year d * 12 + (month d - 1) + n; y = mi div 12; m = mi mod 12 + 1
      in \<lparr>year = y, month = m, day = min (day d) (days_in_month y m)\<rparr>)"

definition add_years :: "date \<Rightarrow> nat \<Rightarrow> date" where
  "add_years d n =
     \<lparr>year = year d + n, month = month d,
      day = min (day d) (days_in_month (year d + n) (month d))\<rparr>"

text \<open>
  The frequency \<^verbatim>\<open>f"{step}ME"\<close> is pandas' \<open>MonthEnd(step)\<close> offset. A date is on the
  offset when it is the last day of its month. Adding \<open>MonthEnd(n)\<close> to a date moves to
  the end of the month \<open>n\<close> months on, after taking one from a positive \<open>n\<close> when the
  date is before its own month end; rolling forward adds \<open>MonthEnd(1)\<close> to a date that
  is not on the offset.
\<close>

definition is_on_offset :: "date \<Rightarrow> bool" where
  "is_on_offset d \<longleftrightarrow> day d = days_in_month (year d) (month d)"

definition month_end_apply :: "nat \<Rightarrow> date \<Rightarrow> date" where
  "month_end_apply n d =
     (let k = (if 0 < n \<and> day d < days_in_month (year d) (month d) then n - 1 else n)
      in month_end_of (year d * 12 + (month d - 1) + k))"

definition rollforward :: "date \<Rightarrow> date" where
  "rollforward d = (if is_on_offset d then d else month_end_apply 1 d)"

text \<open>
  The generator behind \<^verbatim>\<open>pd.date_range(start, end, freq=...)\<close> for a non-negative
  offset: yield \<open>cur\<close> while it is not after \<open>end\<close>, stop after yielding \<open>end\<close> itself,
  and raise ValueError when the offset does not move the date forward.
\<close>

function generate_range :: "nat \<Rightarrow> date \<Rightarrow> date \<Rightarrow> py_error + date list" where
  "generate_range n cur end_date =
     (if to_ordinal cur \<le> to_ordinal end_date then
        (if to_ordinal cur = to_ordinal end_date then Inr [cur]
         else if to_ordinal (month_end_apply n cur) \<le> to_ordinal cur then Inl ValueError
         else (case generate_range n (month_end_apply n cur) end_date of
                 Inl e \<Rightarrow> Inl e
               | Inr ds \<Rightarrow> Inr (cur # ds)))
      else Inr [])"
  by pat_completeness auto
termination
proof (relation "measure (\<lambda>(n, cur, end_date). Suc (to_ordinal end_date) - to_ordinal cur)")
  show "wf (measure (\<lambda>(n, cur, end_date). Suc (to_ordinal end_date) - to_ordinal cur))"
    by (rule wf_measure)
next
  fix n :: nat and cur end_date :: date
  assume "to_ordinal cur \<le> to_ordinal end_date" "to_ordinal cur \<noteq> to_ordinal end_date"
    "\<not> to_ordinal (month_end_apply n cur) \<le> to_ordinal cur"
  then show "((n, month_end_apply n cur, end_date), n, cur, end_date)
      \<in> measure (\<lambda>(n, cur, end_date). Suc (to_ordinal end_date) - to_ordinal cur)"
    by simp
qed

text \<open>
  \<^verbatim>\<open>pd.date_range(start, end, freq=f"{n}ME")\<close>: \<open>start\<close> is rolled forward onto the
  offset first. When \<open>end\<close> is before the rolled start, pandas replaces it by the rolled
  start minus one offset, which is before the start for \<open>n > 0\<close> (no date is
  generated) and is the start itself for \<open>n = 0\<close>.
\<close>

definition date_range :: "date \<Rightarrow> date \<Rightarrow> nat \<Rightarrow> py_error + date list" where
  "date_range start end_date n =
     (let s = rollforward start
      in if to_ordinal end_date < to_ordinal s
         then generate_range n s (if n = 0 then s else end_date)
         else generate_range n s end_date)"

subsection \<open>Cell 2: the fixed-rate bond\<close>

text \<open>
  \<^verbatim>\<open>class FixedRateBond\<close>, with the fields its constructor stores. The payment
  frequency is a natural number.
\<close>

record bond =
  issue :: date
  maturity :: date
  coupon :: real
  freq :: nat
  par :: real

text \<open>
  \<^verbatim>\<open>cashflows\<close>: \<^verbatim>\<open>int(12/self.freq)\<close> divides first (ZeroDivisionError for a zero
  frequency); the coupon is repeated once per date; \<^verbatim>\<open>cfs[-1] += self.par\<close> raises
  IndexError on the empty list.
\<close>

definition cashflows :: "bond \<Rightarrow> py_error + (date \<times> real) list" where
  "cashflows b =
     (if freq b = 0 then Inl ZeroDivisionError
      else
        let step = 12 div freq b
        in case date_range (add_months (issue b) step) (maturity b) step of
             Inl e \<Rightarrow> Inl e
           | Inr dates \<Rightarrow>
               let cfs = replicate (length dates) (par b * coupon b / real (freq b))
               in if cfs = [] then Inl IndexError
                  else Inr (zip dates (cfs[length cfs - 1 := cfs ! (length cfs - 1) + par b])))"

text \<open>
  \<^verbatim>\<open>pv\<close>: the sum of \<^verbatim>\<open>amt * curve.discount_factor((dt-today).days/365)\<close> over all
  the cash flows. The curve class is defined outside this notebook; its
  \<open>discount_factor\<close> method is a parameter.
\<close>

definition pv :: "bond \<Rightarrow> (real \<Rightarrow> real) \<Rightarrow> date \<Rightarrow> py_error + real" where
  "pv b discount_factor today =
     (case cashflows b of
        Inl e \<Rightarrow> Inl e
      | Inr cfs \<Rightarrow>
          Inr (sum_list (map (\<lambda>(dt, amt). amt * discount_factor (real_of_int (days_between today dt) / 365)) cfs)))"

text \<open>A curve for the examples: the discount factor is 1 at every horizon.\<close>

definition undiscounted :: "real \<Rightarrow> real" where
  "undiscounted t = 1"

subsection \<open>Cell 1, end: the shock table; cell 2: stressed curves and scenario values\<close>
























section \<open>Properties\<close>

subsection \<open>Shock Scaler\<close>

text \<open>
  C1. For a tenor count \<open>N \<ge> 1\<close> and a dominant eigenvalue \<open>lam_max \<ge> 0\<close>, with \<open>c\<close> the
  quantile that the chi-squared inverse CDF returns at probability 0.995 and \<open>N\<close> degrees
  of freedom (a non-negative number), the magnitude is \<open>sqrt (c * lam_max)\<close>, it is
  non-negative, and the up shock is the magnitude times the eigenvector, entry by entry,
  with nothing else applied.
\<close>

theorem shock_scaler_formula:
  assumes "1 \<le> N" and "0 \<le> lam_max" and "0 \<le> ppf (995 / 1000) N"
  shows "shock_mag (chi2_c ppf N) lam_max = Some (sqrt (ppf (995 / 1000) N * lam_max))
       \<and> 0 \<le> sqrt (ppf (995 / 1000) N * lam_max)
       \<and> delta_up (chi2_c ppf N) lam_max e_max
           = Some (map (\<lambda>e. sqrt (ppf (995 / 1000) N * lam_max) * e) e_max)"
proof -
  have nn: "0 \<le> ppf (995 / 1000) N * lam_max"
    using assms(2,3) by simp
  then have m: "shock_mag (chi2_c ppf N) lam_max = Some (sqrt (ppf (995 / 1000) N * lam_max))"
    by (simp add: shock_mag_def chi2_c_def np_sqrt_def)
  from nn have "0 \<le> sqrt (ppf (995 / 1000) N * lam_max)"
    by simp
  with m show ?thesis
    by (simp add: delta_up_def)
qed

theorem shock_scaler_formula_witness:
  "shock_mag (chi2_c (\<lambda>p n. 4) 7) 9 = Some 6
   \<and> delta_up (chi2_c (\<lambda>p n. 4) 7) 9 [1, - 2] = Some [6, - 12]"
proof -
  have s: "sqrt (4 * 9) = (6::real)"
    using real_sqrt_abs2 [of 6] by simp
  show ?thesis
    using shock_scaler_formula [of 7 9 "\<lambda>p n. 4" "[1, - 2]"] s by simp
qed

text \<open>
  C2. Whenever the magnitude is a number (the product under the square root is not
  negative), the down shock is the negation of the up shock at every tenor index.
\<close>

theorem delta_down_negates_delta_up:
  assumes "0 \<le> c * lam_max"
  shows "\<exists>up down. delta_up c lam_max e_max = Some up
           \<and> delta_down c lam_max e_max = Some down
           \<and> length up = length e_max \<and> length down = length e_max
           \<and> down = map uminus up
           \<and> (\<forall>i<length e_max. down ! i = - (up ! i))"
  using assms by (simp add: delta_up_def delta_down_def shock_mag_def np_sqrt_def)

theorem delta_down_negates_delta_up_witness:
  "delta_up 4 9 [1, - 2] = Some [6, - 12] \<and> delta_down 4 9 [1, - 2] = Some [- 6, 12]"
proof -
  have s: "sqrt (4 * 9) = (6::real)"
    using real_sqrt_abs2 [of 6] by simp
  have "(0::real) \<le> 4 * 9" by simp
  from delta_down_negates_delta_up [OF this, of "[1, - 2]"] s show ?thesis
    by (auto simp: delta_up_def delta_down_def shock_mag_def np_sqrt_def)
qed

subsection \<open>Covariance Estimator: the weight vector\<close>


lemma raw_weights_nth: "t < T \<Longrightarrow> raw_weights lam T ! t = (1 - lam) * lam ^ (T - 1 - t)"
  by (simp add: raw_weights_def rev_nth)


lemma sum_list_pos_real:
  fixes xs :: "real list"
  assumes "xs \<noteq> []" "\<forall>x\<in>set xs. 0 < x"
  shows "0 < sum_list xs"
  using assms by (induction xs) (auto simp: add_pos_nonneg sum_list_nonneg less_imp_le)


subsection \<open>Covariance Estimator: the matrix\<close>

lemma sum_list_map2_sum:
  fixes f :: "'a \<Rightarrow> 'b \<Rightarrow> real"
  assumes "length xs = length ys"
  shows "sum_list (map2 f xs ys) = (\<Sum>t<length xs. f (xs ! t) (ys ! t))"
proof -
  have "sum_list (map2 f xs ys) = (\<Sum>t = 0..<length (map2 f xs ys). map2 f xs ys ! t)"
    by (rule sum_list_sum_nth)
  also have "\<dots> = (\<Sum>t = 0..<length xs. f (xs ! t) (ys ! t))"
    using assms by (intro sum.cong) auto
  finally show ?thesis by (simp add: lessThan_atLeast0)
qed




lemma H_ewma_entry:
  assumes "length w = length rets" "\<forall>row\<in>set rets. length row = N" "i < N" "j < N"
  shows "H_ewma N rets w ! i ! j = (\<Sum>t<length rets. rets ! t ! i * w ! t * rets ! t ! j)"
proof -
  have len: "length (scale_rows rets w) = length rets"
    using assms(1) by (simp add: scale_rows_def)
  have "H_ewma N rets w ! i ! j
      = sum_list (map2 (\<lambda>a b. a ! i * b ! j) (scale_rows rets w) rets)"
    using assms(3,4) by (simp add: H_ewma_def transpose_matmul_def)
  also have "\<dots> = (\<Sum>t<length rets. scale_rows rets w ! t ! i * rets ! t ! j)"
    using sum_list_map2_sum [OF len, of "\<lambda>a b. a ! i * b ! j"] len by simp
  also have "\<dots> = (\<Sum>t<length rets. rets ! t ! i * w ! t * rets ! t ! j)"
    using assms by (intro sum.cong) (auto simp: scale_rows_def)
  finally show ?thesis .
qed

lemma H_ewma_symmetric:
  assumes "length w = length rets" "\<forall>row\<in>set rets. length row = N" "i < N" "j < N"
  shows "H_ewma N rets w ! i ! j = H_ewma N rets w ! j ! i"
  using assms by (simp add: H_ewma_entry mult.commute mult.left_commute)





text \<open>
  C8, as stated: with \<open>T = 0\<close> or \<open>T = 1\<close> rows the estimator fails with an error. It does
  not: an empty series gives the zero matrix and a single row gives its outer product.
\<close>

theorem covariance_estimator_no_error_counterexample:
  "covariance_estimator (94 / 100) 2 [] = Some [[0, 0], [0, 0]]
   \<and> covariance_estimator (94 / 100) 2 [[1, 2]] = Some [[1, 2], [2, 4]]"
  by (simp add: covariance_estimator_def weights_def raw_weights_def H_ewma_def
      transpose_matmul_def scale_rows_def upt_rec)

text \<open>
  C8, amended. With no rows the estimator returns the \<open>N \<times> N\<close> zero matrix; with one row
  \<open>x\<close> of \<open>N\<close> entries and a decay parameter other than 1 the single weight is 1 and the
  estimator returns the outer product of \<open>x\<close> with itself. Neither case raises an error.
\<close>

theorem covariance_estimator_short_series:
  "covariance_estimator lam N [] = Some (replicate N (replicate N 0))
   \<and> (lam \<noteq> 1 \<and> length x = N \<longrightarrow>
        covariance_estimator lam N [x] = Some (map (\<lambda>i. map (\<lambda>j. x ! i * x ! j) [0..<N]) [0..<N]))"
proof -
  have w0: "weights lam 0 = Some []"
    by (simp add: weights_def raw_weights_def)
  have e: "covariance_estimator lam N [] = Some (replicate N (replicate N 0))"
    by (simp add: covariance_estimator_def w0 H_ewma_def transpose_matmul_def scale_rows_def
        map_replicate_const)
  have o: "covariance_estimator lam N [x] = Some (map (\<lambda>i. map (\<lambda>j. x ! i * x ! j) [0..<N]) [0..<N])"
    if "lam \<noteq> 1" "length x = N"
  proof -
    have w1: "weights lam (Suc 0) = Some [1]"
      using that(1) by (simp add: weights_def raw_weights_def)
    have "H_ewma N [x] [1] = map (\<lambda>i. map (\<lambda>j. x ! i * x ! j) [0..<N]) [0..<N]"
      using that(2) by (simp add: H_ewma_def transpose_matmul_def scale_rows_def)
    then show ?thesis
      by (simp add: covariance_estimator_def w1)
  qed
  from e o show ?thesis by blast
qed

theorem covariance_estimator_short_series_witness:
  "covariance_estimator (1 / 2) 2 [] = Some [[0, 0], [0, 0]]
   \<and> covariance_estimator (1 / 2) 2 [[3, 5]] = Some [[9, 15], [15, 25]]"
proof -
  have "(1 / 2 :: real) \<noteq> 1 \<and> length [3, 5 :: real] = 2" by simp
  with covariance_estimator_short_series [of "1 / 2" 2 "[3, 5]"] show ?thesis
    by (simp add: upt_rec numeral_2_eq_2)
qed

subsection \<open>Risk Factor Extractor\<close>















subsection \<open>Bond Valuer: schedules\<close>

declare generate_range.simps [simp del]

lemmas cal_defs = to_ordinal_def days_before_year_def days_before_month_def days_in_month_def
  is_leap_def month_end_apply_def month_end_of_def rollforward_def is_on_offset_def
  add_months_def add_years_def

lemma generate_range_past:
  "to_ordinal end_date < to_ordinal cur \<Longrightarrow> generate_range n cur end_date = Inr []"
  by (subst generate_range.simps) simp

lemma generate_range_last:
  "to_ordinal cur = to_ordinal end_date \<Longrightarrow> generate_range n cur end_date = Inr [cur]"
  by (subst generate_range.simps) simp

lemma generate_range_step:
  "to_ordinal cur < to_ordinal end_date \<Longrightarrow> to_ordinal cur < to_ordinal (month_end_apply n cur) \<Longrightarrow>
   generate_range n cur end_date =
     (case generate_range n (month_end_apply n cur) end_date of
        Inl e \<Rightarrow> Inl e | Inr ds \<Rightarrow> Inr (cur # ds))"
  by (subst generate_range.simps) simp

lemma generate_range_bounded:
  "generate_range n cur end_date = Inr ds \<Longrightarrow> \<forall>d\<in>set ds. to_ordinal d \<le> to_ordinal end_date"
proof (induction n cur end_date arbitrary: ds rule: generate_range.induct)
  case (1 n cur end_date)
  show ?case
  proof (cases "to_ordinal cur < to_ordinal end_date")
    case True
    with "1.prems" have inc: "\<not> to_ordinal (month_end_apply n cur) \<le> to_ordinal cur"
      by (subst (asm) generate_range.simps) (auto split: if_splits)
    with True "1.prems" obtain ds' where
      r: "generate_range n (month_end_apply n cur) end_date = Inr ds'" and ds: "ds = cur # ds'"
      by (subst (asm) generate_range.simps) (auto split: if_splits sum.splits)
    from "1.IH" [OF _ _ inc r] True have "\<forall>d\<in>set ds'. to_ordinal d \<le> to_ordinal end_date"
      by simp
    with True ds show ?thesis by simp
  next
    case False
    with "1.prems" have "ds = [] \<or> (ds = [cur] \<and> to_ordinal cur = to_ordinal end_date)"
      by (subst (asm) generate_range.simps) (auto split: if_splits)
    then show ?thesis by auto
  qed
qed

lemma generate_range_nonempty:
  assumes "generate_range n cur end_date = Inr ds" "to_ordinal cur \<le> to_ordinal end_date"
  shows "ds \<noteq> []"
  using assms by (subst (asm) generate_range.simps) (auto split: if_splits sum.splits)

lemma month_end_of_valid:
  assumes "1 \<le> m" "m \<le> 12"
  shows "month_end_of (y * 12 + (m - 1)) = \<lparr>year = y, month = m, day = days_in_month y m\<rparr>"
proof -
  from assms obtain k where k: "m = Suc k" "k < 12"
    by (cases m) auto
  have d: "(y * 12 + k) div 12 = y"
    using k(2) by simp
  have r: "(y * 12 + k) mod 12 = k"
    using k(2) by simp
  show ?thesis
    using k(2) by (simp add: month_end_of_def k(1))
qed

lemma rollforward_ge:
  assumes "1 \<le> month d" "month d \<le> 12" "day d \<le> days_in_month (year d) (month d)"
  shows "to_ordinal d \<le> to_ordinal (rollforward d)"
proof (cases "is_on_offset d")
  case True
  then show ?thesis by (simp add: rollforward_def)
next
  case False
  with assms(3) have "day d < days_in_month (year d) (month d)"
    by (simp add: is_on_offset_def)
  then have "rollforward d = \<lparr>year = year d, month = month d, day = days_in_month (year d) (month d)\<rparr>"
    using False month_end_of_valid [OF assms(1,2), of "year d"]
    by (simp add: rollforward_def month_end_apply_def)
  with assms(3) show ?thesis by (simp add: to_ordinal_def)
qed

lemma add_months_wellformed:
  "1 \<le> month (add_months d n) \<and> month (add_months d n) \<le> 12
   \<and> day (add_months d n) \<le> days_in_month (year (add_months d n)) (month (add_months d n))"
  by (simp add: add_months_def Let_def)

lemma date_range_empty:
  assumes "1 \<le> n" "to_ordinal end_date < to_ordinal (add_months d k)"
  shows "date_range (add_months d k) end_date n = Inr []"
proof -
  have "to_ordinal (add_months d k) \<le> to_ordinal (rollforward (add_months d k))"
    using add_months_wellformed [of d k] by (intro rollforward_ge) auto
  with assms(2) have lt: "to_ordinal end_date < to_ordinal (rollforward (add_months d k))"
    by simp
  with assms(1) show ?thesis
    by (simp add: date_range_def Let_def generate_range_past)
qed

lemma cashflows_InrD:
  assumes "cashflows b = Inr cfs"
  shows "\<exists>dates. freq b \<noteq> 0
      \<and> date_range (add_months (issue b) (12 div freq b)) (maturity b) (12 div freq b) = Inr dates
      \<and> dates \<noteq> []
      \<and> cfs = zip dates ((replicate (length dates) (par b * coupon b / real (freq b)))
                [length dates - 1 := par b * coupon b / real (freq b) + par b])"
  using assms by (auto simp: cashflows_def Let_def split: if_splits sum.splits)

lemma sum_list_pos_at:
  fixes xs :: "real list"
  assumes "\<forall>x\<in>set xs. 0 \<le> x" "i < length xs" "0 < xs ! i"
  shows "0 < sum_list xs"
proof -
  have "0 < (\<Sum>k = 0..<length xs. xs ! k)"
  proof (rule sum_pos2 [where i = i])
    show "finite {0..<length xs}" by simp
    show "i \<in> {0..<length xs}" using assms(2) by simp
    show "0 < xs ! i" by (rule assms(3))
    show "\<And>k. k \<in> {0..<length xs} \<Longrightarrow> 0 \<le> xs ! k"
      using assms(1) by simp
  qed
  then show ?thesis by (simp add: sum_list_sum_nth)
qed

lemma date_range_bounded:
  assumes "date_range start end_date n = Inr ds" "1 \<le> n"
  shows "\<forall>d\<in>set ds. to_ordinal d \<le> to_ordinal end_date"
proof -
  from assms(2) have "generate_range n (rollforward start) end_date = Inr ds"
    using assms(1) by (simp add: date_range_def Let_def split: if_splits)
  then show ?thesis by (rule generate_range_bounded)
qed

lemma date_range_mid_month:
  "date_range (add_months \<lparr>year = 2024, month = 3, day = 15\<rparr> 6)
     \<lparr>year = 2026, month = 3, day = 15\<rparr> 6
   = Inr [\<lparr>year = 2024, month = 9, day = 30\<rparr>, \<lparr>year = 2025, month = 3, day = 31\<rparr>,
          \<lparr>year = 2025, month = 9, day = 30\<rparr>]"
proof -
  let ?d1 = "\<lparr>year = 2024, month = 9, day = 30\<rparr>"
  let ?d2 = "\<lparr>year = 2025, month = 3, day = 31\<rparr>"
  let ?d3 = "\<lparr>year = 2025, month = 9, day = 30\<rparr>"
  let ?d4 = "\<lparr>year = 2026, month = 3, day = 31\<rparr>"
  let ?e = "\<lparr>year = 2026, month = 3, day = 15\<rparr>"
  have s: "rollforward (add_months \<lparr>year = 2024, month = 3, day = 15\<rparr> 6) = ?d1"
    by (simp add: cal_defs Let_def)
  have m: "month_end_apply 6 ?d1 = ?d2" "month_end_apply 6 ?d2 = ?d3" "month_end_apply 6 ?d3 = ?d4"
    by (simp_all add: cal_defs Let_def)
  have o: "to_ordinal ?d1 < to_ordinal ?d2" "to_ordinal ?d2 < to_ordinal ?d3"
    "to_ordinal ?d3 < to_ordinal ?d4" "to_ordinal ?d3 < to_ordinal ?e" "to_ordinal ?e < to_ordinal ?d4"
    by (simp_all add: cal_defs upt_rec)
  have lt: "to_ordinal ?d1 < to_ordinal ?e" "to_ordinal ?d2 < to_ordinal ?e"
    using o by linarith+
  have g4: "generate_range 6 ?d4 ?e = Inr []"
    by (rule generate_range_past) (rule o)
  have g3: "generate_range 6 ?d3 ?e = Inr [?d3]"
    by (subst generate_range_step) (simp_all only: m o g4 sum.case)
  have g2: "generate_range 6 ?d2 ?e = Inr [?d2, ?d3]"
    by (subst generate_range_step) (simp_all only: m o lt g3 sum.case)
  have g1: "generate_range 6 ?d1 ?e = Inr [?d1, ?d2, ?d3]"
    by (subst generate_range_step) (simp_all only: m o lt g2 sum.case)
  show ?thesis
    unfolding date_range_def s Let_def using lt(1) g1 by simp
qed

lemma date_range_month_end:
  "date_range (add_months \<lparr>year = 2024, month = 3, day = 31\<rparr> 6)
     \<lparr>year = 2026, month = 3, day = 31\<rparr> 6
   = Inr [\<lparr>year = 2024, month = 9, day = 30\<rparr>, \<lparr>year = 2025, month = 3, day = 31\<rparr>,
          \<lparr>year = 2025, month = 9, day = 30\<rparr>, \<lparr>year = 2026, month = 3, day = 31\<rparr>]"
proof -
  let ?d1 = "\<lparr>year = 2024, month = 9, day = 30\<rparr>"
  let ?d2 = "\<lparr>year = 2025, month = 3, day = 31\<rparr>"
  let ?d3 = "\<lparr>year = 2025, month = 9, day = 30\<rparr>"
  let ?e = "\<lparr>year = 2026, month = 3, day = 31\<rparr>"
  have s: "rollforward (add_months \<lparr>year = 2024, month = 3, day = 31\<rparr> 6) = ?d1"
    by (simp add: cal_defs Let_def)
  have m: "month_end_apply 6 ?d1 = ?d2" "month_end_apply 6 ?d2 = ?d3" "month_end_apply 6 ?d3 = ?e"
    by (simp_all add: cal_defs Let_def)
  have o: "to_ordinal ?d1 < to_ordinal ?d2" "to_ordinal ?d2 < to_ordinal ?d3"
    "to_ordinal ?d3 < to_ordinal ?e"
    by (simp_all add: cal_defs upt_rec)
  have lt: "to_ordinal ?d1 < to_ordinal ?e" "to_ordinal ?d2 < to_ordinal ?e"
    using o by linarith+
  have g4: "generate_range 6 ?e ?e = Inr [?e]"
    by (rule generate_range_last) (rule refl)
  have g3: "generate_range 6 ?d3 ?e = Inr [?d3, ?e]"
    by (subst generate_range_step) (simp_all only: m o g4 sum.case)
  have g2: "generate_range 6 ?d2 ?e = Inr [?d2, ?d3, ?e]"
    by (subst generate_range_step) (simp_all only: m o lt g3 sum.case)
  have g1: "generate_range 6 ?d1 ?e = Inr [?d1, ?d2, ?d3, ?e]"
    by (subst generate_range_step) (simp_all only: m o lt g2 sum.case)
  show ?thesis
    unfolding date_range_def s Let_def using lt(1) g1 by simp
qed

lemma cashflows_month_end_bond:
  "cashflows \<lparr>issue = \<lparr>year = 2024, month = 3, day = 31\<rparr>,
      maturity = \<lparr>year = 2026, month = 3, day = 31\<rparr>,
      coupon = 2 / 100, freq = 2, par = 1000000\<rparr>
   = Inr [(\<lparr>year = 2024, month = 9, day = 30\<rparr>, 10000),
          (\<lparr>year = 2025, month = 3, day = 31\<rparr>, 10000),
          (\<lparr>year = 2025, month = 9, day = 30\<rparr>, 10000),
          (\<lparr>year = 2026, month = 3, day = 31\<rparr>, 1010000)]"
  by (simp add: cashflows_def Let_def date_range_month_end)

text \<open>
  C6, at a bond issued in the middle of a month: the 2-year, 2 per cent semiannual bond
  issued on 2024-03-15 matures on 2026-03-15. Its payment dates are month ends; the
  fourth, 2026-03-31, is after maturity and is not generated. The schedule has 3 cash
  flows, and the principal is repaid with the third, on 2025-09-30.
\<close>

theorem cashflows_two_year_bond_mid_month:
  "add_years \<lparr>year = 2024, month = 3, day = 15\<rparr> 2 = \<lparr>year = 2026, month = 3, day = 15\<rparr>
   \<and> cashflows \<lparr>issue = \<lparr>year = 2024, month = 3, day = 15\<rparr>,
        maturity = \<lparr>year = 2026, month = 3, day = 15\<rparr>,
        coupon = 2 / 100, freq = 2, par = 1000000\<rparr>
      = Inr [(\<lparr>year = 2024, month = 9, day = 30\<rparr>, 10000),
             (\<lparr>year = 2025, month = 3, day = 31\<rparr>, 10000),
             (\<lparr>year = 2025, month = 9, day = 30\<rparr>, 1010000)]"
  by (simp add: cashflows_def Let_def date_range_mid_month add_years_def days_in_month_def)

text \<open>
  C7, as stated: on or after maturity the schedule is empty and the present value is 0.
  For the bond issued on 2024-03-31 and maturing on 2026-03-31, valued at maturity and
  later with discount factor 1, the schedule has its 4 cash flows and the value is
  1040000.
\<close>

theorem pv_at_maturity_counterexample:
  "cashflows \<lparr>issue = \<lparr>year = 2024, month = 3, day = 31\<rparr>,
      maturity = \<lparr>year = 2026, month = 3, day = 31\<rparr>,
      coupon = 2 / 100, freq = 2, par = 1000000\<rparr>
   = Inr [(\<lparr>year = 2024, month = 9, day = 30\<rparr>, 10000),
          (\<lparr>year = 2025, month = 3, day = 31\<rparr>, 10000),
          (\<lparr>year = 2025, month = 9, day = 30\<rparr>, 10000),
          (\<lparr>year = 2026, month = 3, day = 31\<rparr>, 1010000)]
   \<and> pv \<lparr>issue = \<lparr>year = 2024, month = 3, day = 31\<rparr>,
        maturity = \<lparr>year = 2026, month = 3, day = 31\<rparr>,
        coupon = 2 / 100, freq = 2, par = 1000000\<rparr>
        undiscounted \<lparr>year = 2026, month = 3, day = 31\<rparr> = Inr 1040000
   \<and> pv \<lparr>issue = \<lparr>year = 2024, month = 3, day = 31\<rparr>,
        maturity = \<lparr>year = 2026, month = 3, day = 31\<rparr>,
        coupon = 2 / 100, freq = 2, par = 1000000\<rparr>
        undiscounted \<lparr>year = 2030, month = 6, day = 30\<rparr> = Inr 1040000"
  unfolding pv_def cashflows_month_end_bond by (simp add: undiscounted_def)

text \<open>
  C7, amended. \<open>cashflows\<close> takes no valuation date. For every bond for which it
  returns, the schedule is not empty, every amount is \<open>par * coupon / freq\<close> and the last
  one adds the par amount; at every valuation date and for every curve, \<open>pv\<close> returns,
  without an error, exactly the sum of amount times discount factor at
  \<open>(payment date - valuation date).days / 365\<close> over that whole schedule. For a positive
  par amount, a non-negative coupon rate and positive discount factors this value is
  strictly positive, so it is not 0; on or after maturity (with at most 12 payments a
  year) every payment date is on or before the valuation date, so the year fractions
  are not positive.
\<close>

theorem pv_ignores_valuation_date:
  assumes "cashflows b = Inr cfs"
  shows "cfs \<noteq> []
       \<and> map snd cfs = replicate (length cfs - 1) (par b * coupon b / real (freq b))
                          @ [par b * coupon b / real (freq b) + par b]
       \<and> pv b discount_factor today
           = Inr (\<Sum>(dt, amt)\<leftarrow>cfs.
                    amt * discount_factor (real_of_int (days_between today dt) / 365))
       \<and> (0 < par b \<and> 0 \<le> coupon b \<and> (\<forall>t. 0 < discount_factor t)
            \<longrightarrow> (\<exists>v. pv b discount_factor today = Inr v \<and> 0 < v))
       \<and> (freq b \<le> 12 \<and> to_ordinal (maturity b) \<le> to_ordinal today
            \<longrightarrow> (\<forall>(dt, amt)\<in>set cfs. days_between today dt \<le> 0))"
proof -
  let ?a = "par b * coupon b / real (freq b)"
  from cashflows_InrD [OF assms(1)] obtain dates where
    f: "freq b \<noteq> 0" and
    dr: "date_range (add_months (issue b) (12 div freq b)) (maturity b) (12 div freq b) = Inr dates" and
    ne: "dates \<noteq> []" and
    cfs: "cfs = zip dates ((replicate (length dates) ?a)[length dates - 1 := ?a + par b])"
    by blast
  let ?n = "length dates"
  let ?flow = "\<lambda>(dt, amt). amt * discount_factor (real_of_int (days_between today dt) / 365)"
  have len: "length cfs = ?n"
    by (simp add: cfs)
  have amounts: "map snd cfs = replicate (?n - 1) ?a @ [?a + par b]"
  proof -
    have "map snd cfs = (replicate ?n ?a)[?n - 1 := ?a + par b]"
      by (simp add: cfs)
    also have "\<dots> = replicate (?n - 1) ?a @ [?a + par b]"
    proof (rule nth_equalityI)
      show "length ((replicate ?n ?a)[?n - 1 := ?a + par b]) = length (replicate (?n - 1) ?a @ [?a + par b])"
        using ne by simp
    next
      fix i
      assume "i < length ((replicate ?n ?a)[?n - 1 := ?a + par b])"
      then have i: "i < ?n" by simp
      show "(replicate ?n ?a)[?n - 1 := ?a + par b] ! i = (replicate (?n - 1) ?a @ [?a + par b]) ! i"
        using i by (cases "i = ?n - 1") (auto simp: nth_append)
    qed
    finally show ?thesis .
  qed
  have pvv: "pv b discount_factor today = Inr (sum_list (map ?flow cfs))"
    by (simp add: pv_def assms(1))
  have pos: "\<exists>v. pv b discount_factor today = Inr v \<and> 0 < v"
    if h: "0 < par b" "0 \<le> coupon b" "\<forall>t. 0 < discount_factor t"
  proof -
    have a0: "0 \<le> ?a"
      using h(1,2) by simp
    have amt: "snd (cfs ! i) = (if i = ?n - 1 then ?a + par b else ?a)" if "i < ?n" for i
      using that by (simp add: cfs)
    have nonneg: "0 \<le> snd (cfs ! i)" if "i < ?n" for i
      using that a0 h(1) by (simp add: amt)
    have flownn: "\<forall>x\<in>set (map ?flow cfs). 0 \<le> x"
    proof -
      have "0 \<le> ?flow (cfs ! i)" if "i < ?n" for i
      proof -
        have "0 \<le> snd (cfs ! i) * discount_factor (real_of_int (days_between today (fst (cfs ! i))) / 365)"
          using nonneg [OF that] h(3) by (simp add: less_imp_le)
        then show ?thesis by (simp add: case_prod_unfold)
      qed
      then have "\<forall>i<length (map ?flow cfs). 0 \<le> map ?flow cfs ! i"
        using len by simp
      then show ?thesis
        by (simp only: all_set_conv_all_nth)
    qed
    have last: "0 < map ?flow cfs ! (?n - 1)"
    proof -
      have i: "?n - 1 < ?n" using ne by simp
      have "snd (cfs ! (?n - 1)) = ?a + par b"
        using amt [OF i] by simp
      then have "0 < snd (cfs ! (?n - 1))"
        using a0 h(1) by linarith
      then have "0 < snd (cfs ! (?n - 1))
          * discount_factor (real_of_int (days_between today (fst (cfs ! (?n - 1)))) / 365)"
        using h(3) by simp
      then show ?thesis
        using i len by (simp add: case_prod_unfold)
    qed
    have "0 < sum_list (map ?flow cfs)"
      using ne len by (intro sum_list_pos_at [OF flownn _ last]) simp
    with pvv show ?thesis by simp
  qed
  have past: "\<forall>(dt, amt)\<in>set cfs. days_between today dt \<le> 0"
    if "freq b \<le> 12" "to_ordinal (maturity b) \<le> to_ordinal today"
  proof -
    have "1 \<le> 12 div freq b"
      using f that(1) by (simp add: Suc_le_eq div_greater_zero_iff)
    from date_range_bounded [OF dr this] have "\<forall>d\<in>set dates. to_ordinal d \<le> to_ordinal (maturity b)" .
    moreover have "fst p \<in> set dates" if "p \<in> set cfs" for p
    proof -
      obtain d x where "p = (d, x)" by (cases p)
      with that show ?thesis
        unfolding cfs by (auto dest: set_zip_leftD)
    qed
    ultimately show ?thesis
      using that(2) by (fastforce simp: days_between_def)
  qed
  have ne': "cfs \<noteq> []"
    using ne len by auto
  from ne' amounts len pvv pos past show ?thesis
    by simp
qed

theorem pv_ignores_valuation_date_witness:
  "pv \<lparr>issue = \<lparr>year = 2024, month = 3, day = 31\<rparr>,
        maturity = \<lparr>year = 2026, month = 3, day = 31\<rparr>,
        coupon = 2 / 100, freq = 2, par = 1000000\<rparr>
        undiscounted \<lparr>year = 2026, month = 3, day = 31\<rparr> = Inr 1040000
   \<and> days_between \<lparr>year = 2026, month = 3, day = 31\<rparr> \<lparr>year = 2024, month = 9, day = 30\<rparr> \<le> 0"
proof -
  let ?b = "\<lparr>issue = \<lparr>year = 2024, month = 3, day = 31\<rparr>,
        maturity = \<lparr>year = 2026, month = 3, day = 31\<rparr>,
        coupon = 2 / 100, freq = 2, par = 1000000 :: real\<rparr>"
  let ?today = "\<lparr>year = 2026, month = 3, day = 31\<rparr>"
  note t = pv_ignores_valuation_date [OF cashflows_month_end_bond, of undiscounted ?today]
  have v: "pv ?b undiscounted ?today = Inr 1040000"
    using t by (simp add: undiscounted_def)
  have "freq ?b \<le> 12 \<and> to_ordinal (maturity ?b) \<le> to_ordinal ?today"
    by simp
  with t have "\<forall>(dt, amt)\<in>set [(\<lparr>year = 2024, month = 9, day = 30\<rparr>, 10000 :: real),
          (\<lparr>year = 2025, month = 3, day = 31\<rparr>, 10000),
          (\<lparr>year = 2025, month = 9, day = 30\<rparr>, 10000),
          (\<lparr>year = 2026, month = 3, day = 31\<rparr>, 1010000)]. days_between ?today dt \<le> 0"
    by blast
  then have "days_between ?today \<lparr>year = 2024, month = 9, day = 30\<rparr> \<le> 0"
    by simp
  with v show ?thesis by simp
qed

text \<open>
  C10. When the maturity is earlier than the issue date plus \<open>12/freq\<close> months (for a
  frequency between 1 and 12), no payment date is generated, the principal update
  indexes an empty list, and both \<open>cashflows\<close> and \<open>pv\<close> fail with IndexError. The
  bond issued on 2024-03-15 and maturing on 2024-05-15 is one such bond.
\<close>

theorem cashflows_empty_schedule_fails:
  assumes "1 \<le> freq b" and "freq b \<le> 12"
    and "to_ordinal (maturity b) < to_ordinal (add_months (issue b) (12 div freq b))"
  shows "cashflows b = Inl IndexError \<and> pv b discount_factor today = Inl IndexError"
proof -
  have "1 \<le> 12 div freq b"
    using assms(1,2) by (simp add: Suc_le_eq div_greater_zero_iff)
  from date_range_empty [OF this assms(3)] assms(1)
  have "cashflows b = Inl IndexError"
    by (simp add: cashflows_def Let_def)
  then show ?thesis by (simp add: pv_def)
qed

theorem cashflows_empty_schedule_fails_witness:
  "valid_date \<lparr>year = 2024, month = 3, day = 15\<rparr> \<and> valid_date \<lparr>year = 2024, month = 5, day = 15\<rparr>
   \<and> to_ordinal \<lparr>year = 2024, month = 3, day = 15\<rparr> < to_ordinal \<lparr>year = 2024, month = 5, day = 15\<rparr>
   \<and> to_ordinal \<lparr>year = 2024, month = 5, day = 15\<rparr>
        < to_ordinal (add_months \<lparr>year = 2024, month = 3, day = 15\<rparr> 6)
   \<and> cashflows \<lparr>issue = \<lparr>year = 2024, month = 3, day = 15\<rparr>,
        maturity = \<lparr>year = 2024, month = 5, day = 15\<rparr>, coupon = 2 / 100, freq = 2, par = 1000000\<rparr>
      = Inl IndexError
   \<and> pv \<lparr>issue = \<lparr>year = 2024, month = 3, day = 15\<rparr>,
        maturity = \<lparr>year = 2024, month = 5, day = 15\<rparr>, coupon = 2 / 100, freq = 2, par = 1000000\<rparr>
        undiscounted \<lparr>year = 2024, month = 3, day = 15\<rparr>
      = Inl IndexError"
proof -
  let ?b = "\<lparr>issue = \<lparr>year = 2024, month = 3, day = 15\<rparr>,
        maturity = \<lparr>year = 2024, month = 5, day = 15\<rparr>, coupon = 2 / 100, freq = 2, par = 1000000\<rparr>"
  have v: "valid_date \<lparr>year = 2024, month = 3, day = 15\<rparr>" "valid_date \<lparr>year = 2024, month = 5, day = 15\<rparr>"
    by (simp_all add: valid_date_def days_in_month_def)
  have o: "to_ordinal \<lparr>year = 2024, month = 3, day = 15\<rparr> < to_ordinal \<lparr>year = 2024, month = 5, day = 15\<rparr>"
    by (simp add: cal_defs upt_rec)
  have h: "to_ordinal \<lparr>year = 2024, month = 5, day = 15\<rparr>
        < to_ordinal (add_months \<lparr>year = 2024, month = 3, day = 15\<rparr> 6)"
    by (simp add: cal_defs Let_def upt_rec)
  have "1 \<le> freq ?b" "freq ?b \<le> 12"
    "to_ordinal (maturity ?b) < to_ordinal (add_months (issue ?b) (12 div freq ?b))"
    using h by simp_all
  from cashflows_empty_schedule_fails [OF this, of undiscounted "\<lparr>year = 2024, month = 3, day = 15\<rparr>"] v o h
  show ?thesis by simp
qed

subsection \<open>Bond Valuer: schedules of month-end bonds\<close>










lemma month_end_of_index:
  "year (month_end_of a) * 12 + (month (month_end_of a) - 1) = a"
  "day (month_end_of a) = days_in_month (year (month_end_of a)) (month (month_end_of a))"
  by (simp_all add: month_end_of_def)





subsection \<open>Scenario Aggregator: the shock columns\<close>






subsection \<open>Scenario Aggregator: the order of the scenarios\<close>





















end
